theory Spec2Isabelle
  imports Main "HOL-Library.AList"
begin

section \<open>Values of the action\<close>

text \<open>
  The action (\<^verbatim>\<open>src/index.js\<close>) reads a document, flattens it into dotted keys, resolves
  \<^verbatim>\<open>$(name)\<close> references and publishes the result. The document is a tree of JavaScript
  values. A \<open>scalar\<close> is a value for which \<^verbatim>\<open>val && typeof val === "object"\<close> is false
  (\<^verbatim>\<open>null\<close> included); an array or a plain object is a container. Numbers are
  integers here (no fraction, no NaN). The entries of \<open>Obj\<close> are the object's own
  properties in the order \<^verbatim>\<open>Object.entries\<close> gives them. A string is a list of
  characters; the code never looks inside a character, so the units of a JavaScript
  string are taken as the characters.
\<close>

datatype scalar = Undefined | Null | Bool bool | Num int | Str string

datatype node = Leaf scalar | Arr "node list" | Obj "(string \<times> node) list"

datatype exn = Error string | TypeError string

fun message :: "exn \<Rightarrow> string" where
  "message (Error m) = m"
| "message (TypeError m) = m"

text \<open>What a computation does: it returns, it throws, or it never returns.\<close>

datatype 'a res = Ok 'a | Throw exn | Diverge

fun truthy :: "scalar \<Rightarrow> bool" where
  "truthy Undefined = False"
| "truthy Null = False"
| "truthy (Bool b) = b"
| "truthy (Num n) = (n \<noteq> 0)"
| "truthy (Str s) = (s \<noteq> [])"

subsection \<open>Numbers and values as text\<close>

definition digit_char :: "nat \<Rightarrow> char" where
  "digit_char d = ''0123456789'' ! d"

fun show_nat :: "nat \<Rightarrow> string" where
  "show_nat n = (if n < 10 then [digit_char n] else show_nat (n div 10) @ [digit_char (n mod 10)])"

declare show_nat.simps [simp del]

text \<open>\<^verbatim>\<open>String(v)\<close>, as a template literal and \<^verbatim>\<open>String.prototype.replace\<close> apply it.\<close>

fun to_string :: "scalar \<Rightarrow> string" where
  "to_string Undefined = ''undefined''"
| "to_string Null = ''null''"
| "to_string (Bool b) = (if b then ''true'' else ''false'')"
| "to_string (Num n) = (if n < 0 then CHR ''-'' # show_nat (nat (- n)) else show_nat (nat n))"
| "to_string (Str s) = s"

section \<open>The object \<^verbatim>\<open>resolvedValues\<close>\<close>

text \<open>
  \<^verbatim>\<open>const resolvedValues = {}\<close> is a plain object: it has its own properties, kept in
  insertion order, and its prototype is \<^verbatim>\<open>Object.prototype\<close>. Reading
  \<^verbatim>\<open>lookup[ref]\<close> finds an own property first and a member of the prototype otherwise.
  Writing the key \<^verbatim>\<open>__proto__\<close> runs the prototype's setter: \<^verbatim>\<open>null\<close> detaches the
  prototype, any other scalar is ignored.
\<close>

record store =
  props :: "(string \<times> scalar) list"
  proto :: bool

definition empty_store :: store where
  "empty_store = \<lparr>props = [], proto = True\<rparr>"

definition object_prototype_members :: "string list" where
  "object_prototype_members =
     [''constructor'', ''__defineGetter__'', ''__defineSetter__'', ''hasOwnProperty'',
      ''__lookupGetter__'', ''__lookupSetter__'', ''isPrototypeOf'', ''propertyIsEnumerable'',
      ''toString'', ''valueOf'', ''__proto__'', ''toLocaleString'']"

datatype property = Own scalar | Inherited string | Absent

definition js_get :: "store \<Rightarrow> string \<Rightarrow> property" where
  "js_get obj k =
     (case map_of (props obj) k of
        Some v \<Rightarrow> Own v
      | None \<Rightarrow> if proto obj \<and> k \<in> set object_prototype_members then Inherited k else Absent)"

definition js_set :: "store \<Rightarrow> string \<Rightarrow> scalar \<Rightarrow> store" where
  "js_set obj k v =
     (if k = ''__proto__'' \<and> proto obj
      then (if v = Null then obj\<lparr>proto := False\<rparr> else obj)
      else obj\<lparr>props := AList.update k v (props obj)\<rparr>)"

text \<open>\<^verbatim>\<open>!lookup[ref]\<close> is true when this is false.\<close>

fun truthy_property :: "property \<Rightarrow> bool" where
  "truthy_property (Own v) = truthy v"
| "truthy_property (Inherited k) = True"
| "truthy_property Absent = False"

text \<open>
  \<^verbatim>\<open>Object.entries(resolvedValues)\<close>: the keys that are array indices (canonical decimal
  numbers below \<open>2^32 - 1\<close>) come first, in ascending order, then the other keys in
  insertion order.
\<close>

definition is_digit :: "char \<Rightarrow> bool" where
  "is_digit c = (c \<in> set ''0123456789'')"

definition digit_value :: "char \<Rightarrow> nat" where
  "digit_value c = length (takeWhile (\<lambda>d. d \<noteq> c) ''0123456789'')"

definition digits_value :: "string \<Rightarrow> nat" where
  "digits_value k = foldl (\<lambda>a c. 10 * a + digit_value c) 0 k"

definition array_index :: "string \<Rightarrow> nat option" where
  "array_index k =
     (if k \<noteq> [] \<and> list_all is_digit k \<and> show_nat (digits_value k) = k
         \<and> digits_value k < 4294967295
      then Some (digits_value k) else None)"

definition index_key :: "string \<times> 'a \<Rightarrow> nat" where
  "index_key p = (case array_index (fst p) of Some n \<Rightarrow> n | None \<Rightarrow> 0)"

definition is_index_entry :: "string \<times> 'a \<Rightarrow> bool" where
  "is_index_entry p = (array_index (fst p) \<noteq> None)"

definition own_entries :: "(string \<times> 'a) list \<Rightarrow> (string \<times> 'a) list" where
  "own_entries ps =
     sort_key index_key (filter is_index_entry ps) @ filter (\<lambda>p. \<not> is_index_entry p) ps"

section \<open>Interpolation: \<^verbatim>\<open>resolveVariables\<close>\<close>

subsection \<open>The pattern \<^verbatim>\<open>/\$\(([^\)]+)\)/\<close>\<close>

text \<open>
  \<open>token_at s\<close> matches the pattern at the start of \<open>s\<close> and returns the group
  \<^verbatim>\<open>found[1]\<close>: after \<^verbatim>\<open>$(\<close>, the longest run of characters other than \<^verbatim>\<open>)\<close>, which
  must be non-empty and followed by \<^verbatim>\<open>)\<close>. \<open>match_token\<close> is \<^verbatim>\<open>current.match(pattern)\<close>:
  the leftmost position where the pattern matches; \<open>None\<close> is \<^verbatim>\<open>null\<close>.
\<close>

definition token_at :: "string \<Rightarrow> string option" where
  "token_at s =
     (case s of
        a # b # rest \<Rightarrow>
          (let name = takeWhile (\<lambda>c. c \<noteq> CHR '')'') rest
           in if a = CHR ''$'' \<and> b = CHR ''('' \<and> name \<noteq> [] \<and> length name < length rest
              then Some name else None)
      | _ \<Rightarrow> None)"

fun match_token :: "string \<Rightarrow> string option" where
  "match_token [] = None"
| "match_token (c # s) =
     (case token_at (c # s) of Some name \<Rightarrow> Some name | None \<Rightarrow> match_token s)"

text \<open>\<^verbatim>\<open>found[0]\<close>, the text the pattern consumed.\<close>

definition token :: "string \<Rightarrow> string" where
  "token name = ''$('' @ name @ '')''"

subsection \<open>\<^verbatim>\<open>String.prototype.replace\<close> with a string pattern\<close>

text \<open>
  \<^verbatim>\<open>current.replace(found[0], lookup[ref])\<close> replaces the first occurrence of the string
  \<^verbatim>\<open>found[0]\<close>. A replacement that is not a function is turned into a string, in which
  \<^verbatim>\<open>$$\<close> stands for \<^verbatim>\<open>$\<close>, \<^verbatim>\<open>$&\<close> for the matched text, the dollar sign with a backquote for the text before the
  match and \<^verbatim>\<open>$'\<close> for the text after it (a string pattern has no groups, so \<^verbatim>\<open>$1\<close>
  stays as it is). A replacement that is a function is called with the matched text.
\<close>

fun index_of :: "string \<Rightarrow> string \<Rightarrow> nat option" where
  "index_of pat [] = (if pat = [] then Some 0 else None)"
| "index_of pat (c # s) =
     (if take (length pat) (c # s) = pat then Some 0 else map_option Suc (index_of pat s))"

fun get_substitution :: "string \<Rightarrow> string \<Rightarrow> nat \<Rightarrow> string \<Rightarrow> string" where
  "get_substitution matched str position [] = []"
| "get_substitution matched str position [c] = [c]"
| "get_substitution matched str position (c # d # rest) =
     (if c = CHR ''$'' \<and> d = CHR ''$''
        then CHR ''$'' # get_substitution matched str position rest
      else if c = CHR ''$'' \<and> d = CHR ''&''
        then matched @ get_substitution matched str position rest
      else if c = CHR ''$'' \<and> d = CHR 0x60
        then take position str @ get_substitution matched str position rest
      else if c = CHR ''$'' \<and> d = CHR 0x27
        then drop (position + length matched) str @ get_substitution matched str position rest
      else c # get_substitution matched str position (d # rest))"

text \<open>
  The members of \<^verbatim>\<open>Object.prototype\<close> as a replacement: \<^verbatim>\<open>__proto__\<close> is the prototype
  object, which prints as \<^verbatim>\<open>[object Object]\<close>; the others are functions, called with
  \<^verbatim>\<open>this\<close> undefined and the matched text as first argument. \<^verbatim>\<open>Object(text)\<close> gives the
  text back, \<^verbatim>\<open>toString\<close> gives \<^verbatim>\<open>[object Undefined]\<close>, \<^verbatim>\<open>isPrototypeOf(text)\<close> gives
  \<^verbatim>\<open>false\<close>, and the rest throw a TypeError on the undefined \<^verbatim>\<open>this\<close>.
\<close>

definition inherited_replacement :: "string \<Rightarrow> string \<Rightarrow> string res" where
  "inherited_replacement k matched =
     (if k = ''__proto__'' then Ok ''[object Object]''
      else if k = ''constructor'' then Ok matched
      else if k = ''toString'' then Ok ''[object Undefined]''
      else if k = ''isPrototypeOf'' then Ok ''false''
      else if k = ''toLocaleString''
        then Throw (TypeError ''Object.prototype.toLocaleString called on null or undefined'')
      else Throw (TypeError ''Cannot convert undefined or null to object''))"

fun replacement_text :: "property \<Rightarrow> string \<Rightarrow> string \<Rightarrow> nat \<Rightarrow> string res" where
  "replacement_text (Own v) matched str position =
     Ok (get_substitution matched str position (to_string v))"
| "replacement_text Absent matched str position =
     Ok (get_substitution matched str position ''undefined'')"
| "replacement_text (Inherited k) matched str position = inherited_replacement k matched"

definition js_replace :: "string \<Rightarrow> string \<Rightarrow> property \<Rightarrow> string res" where
  "js_replace str search replaceValue =
     (case index_of search str of
        None \<Rightarrow> Ok str
      | Some position \<Rightarrow>
          (case replacement_text replaceValue search str position of
             Ok replacement \<Rightarrow>
               Ok (take position str @ replacement @ drop (position + length search) str)
           | Throw e \<Rightarrow> Throw e
           | Diverge \<Rightarrow> Diverge))"

subsection \<open>The loop\<close>

definition undefined_message :: "string \<Rightarrow> string" where
  \<open>undefined_message ref = ''Variable "'' @ ref @ ''" is not defined''\<close>

text \<open>
  The \<^verbatim>\<open>while (found)\<close> loop of the string branch. It may run forever, so it is a partial
  function: \<open>None\<close> is the loop that never ends.
\<close>

partial_function (option) resolve_loop :: "store \<Rightarrow> string \<Rightarrow> string res option" where
  "resolve_loop lookup current =
     (case match_token current of
        None \<Rightarrow> Some (Ok current)
      | Some ref \<Rightarrow>
          if \<not> truthy_property (js_get lookup ref)
          then Some (Throw (Error (undefined_message ref)))
          else (case js_replace current (token ref) (js_get lookup ref) of
                  Ok current' \<Rightarrow> resolve_loop lookup current'
                | Throw e \<Rightarrow> Some (Throw e)
                | Diverge \<Rightarrow> Some Diverge))"

text \<open>
  The string branch and the last branch (\<^verbatim>\<open>return input\<close>) of \<^verbatim>\<open>resolveVariables\<close>, which
  together handle every scalar.
\<close>

fun resolve_scalar :: "scalar \<Rightarrow> store \<Rightarrow> scalar res" where
  "resolve_scalar (Str s) lookup =
     (case resolve_loop lookup s of
        None \<Rightarrow> Diverge
      | Some (Ok r) \<Rightarrow> Ok (Str r)
      | Some (Throw e) \<Rightarrow> Throw e
      | Some Diverge \<Rightarrow> Diverge)"
| "resolve_scalar v lookup = Ok v"

section \<open>Flattening: \<^verbatim>\<open>traverse\<close>\<close>

text \<open>
  What the action does to the outside: the calls of \<^verbatim>\<open>core.info\<close>, \<^verbatim>\<open>core.error\<close>,
  \<^verbatim>\<open>core.setOutput\<close>, \<^verbatim>\<open>core.exportVariable\<close> and \<^verbatim>\<open>core.setFailed\<close>, in order.
\<close>

datatype effect =
    Info string
  | ErrorLog string
  | SetOutput string node
  | ExportVariable string scalar
  | SetFailed string

record tstate =
  resolvedValues :: store
  emitted :: "effect list"

datatype completion = Normal | Thrown exn | Hangs

definition array_entries :: "'a list \<Rightarrow> (string \<times> 'a) list" where
  "array_entries xs = zip (map show_nat [0..<length xs]) xs"

text \<open>\<^verbatim>\<open>path ? `${path}.${key}` : key\<close>\<close>

definition full_key :: "string \<Rightarrow> string \<Rightarrow> string" where
  "full_key path key = (if path \<noteq> [] then path @ ''.'' @ key else key)"

definition publish_array :: "string \<Rightarrow> node list \<Rightarrow> tstate \<Rightarrow> tstate" where
  "publish_array fullKey xs st =
     st\<lparr>emitted := emitted st @ [SetOutput (fullKey @ ''.array'') (Arr xs)]\<rparr>"

text \<open>
  The \<^verbatim>\<open>for\<close> loop of \<^verbatim>\<open>traverse\<close> over \<^verbatim>\<open>Object.entries(node)\<close>. A container is entered
  (an array after its \<^verbatim>\<open>.array\<close> output is published); any other value is resolved
  against \<^verbatim>\<open>resolvedValues\<close> as it stands and stored. An exception ends the loop with
  the state reached.
\<close>

function traverse_entries :: "(string \<times> node) list \<Rightarrow> string \<Rightarrow> tstate \<Rightarrow> completion \<times> tstate" where
  "traverse_entries [] path st = (Normal, st)"
| "traverse_entries ((key, Arr xs) # rest) path st =
     (case traverse_entries (array_entries xs) (full_key path key)
             (publish_array (full_key path key) xs st) of
        (Normal, st') \<Rightarrow> traverse_entries rest path st'
      | (Thrown e, st') \<Rightarrow> (Thrown e, st')
      | (Hangs, st') \<Rightarrow> (Hangs, st'))"
| "traverse_entries ((key, Obj es) # rest) path st =
     (case traverse_entries es (full_key path key) st of
        (Normal, st') \<Rightarrow> traverse_entries rest path st'
      | (Thrown e, st') \<Rightarrow> (Thrown e, st')
      | (Hangs, st') \<Rightarrow> (Hangs, st'))"
| "traverse_entries ((key, Leaf v) # rest) path st =
     (case resolve_scalar v (resolvedValues st) of
        Ok r \<Rightarrow>
          traverse_entries rest path
            (st\<lparr>resolvedValues := js_set (resolvedValues st) (full_key path key) r\<rparr>)
      | Throw e \<Rightarrow> (Thrown e, st)
      | Diverge \<Rightarrow> (Hangs, st))"
  by pat_completeness auto

lemma size_array_entries:
  "size_list (\<lambda>p. size (snd p)) (array_entries xs) = size_list size xs"
proof -
  have "length ks = length xs \<Longrightarrow> size_list (\<lambda>p. size (snd p)) (zip ks xs) = size_list size xs"
    for ks :: "string list"
    by (induction ks xs rule: list_induct2) simp_all
  then show ?thesis by (simp add: array_entries_def)
qed

lemma size_object_entries:
  "size_list (\<lambda>p. size (snd p)) es < Suc (Suc (size_list (size_prod (\<lambda>_. 0) size) es + n))"
  by (induction es) auto

termination traverse_entries
proof (relation "measure (\<lambda>(es, path, st). size_list (\<lambda>p. size (snd p)) es)")
  show "wf (measure (\<lambda>(es, path, st). size_list (\<lambda>p. size (snd p)) es))"
    by simp
qed (simp_all add: size_array_entries size_object_entries)

text \<open>
  \<^verbatim>\<open>Object.entries\<close> of the document root, which may be any value: \<^verbatim>\<open>null\<close> and
  \<^verbatim>\<open>undefined\<close> throw, a string gives its characters, a number or boolean nothing.
\<close>

fun object_entries :: "node \<Rightarrow> exn + (string \<times> node) list" where
  "object_entries (Obj es) = Inr es"
| "object_entries (Arr xs) = Inr (array_entries xs)"
| "object_entries (Leaf (Str s)) = Inr (array_entries (map (\<lambda>c. Leaf (Str [c])) s))"
| "object_entries (Leaf Undefined) = Inl (TypeError ''Cannot convert undefined or null to object'')"
| "object_entries (Leaf Null) = Inl (TypeError ''Cannot convert undefined or null to object'')"
| "object_entries (Leaf v) = Inr []"

definition traverse :: "node \<Rightarrow> string \<Rightarrow> tstate \<Rightarrow> completion \<times> tstate" where
  "traverse node path st =
     (case object_entries node of
        Inl e \<Rightarrow> (Thrown e, st)
      | Inr es \<Rightarrow> traverse_entries es path st)"

subsection \<open>\<^verbatim>\<open>resolveVariables\<close> on any value\<close>

text \<open>
  The whole of \<^verbatim>\<open>resolveVariables\<close>. Its first branch builds a new plain object from the
  resolved properties of an object or array; an assignment to the key \<^verbatim>\<open>__proto__\<close>
  adds no property to it. \<open>traverse_entries\<close> calls the function on scalars only, where
  it is \<open>resolve_scalar\<close>.
\<close>

definition assign :: "(string \<times> node) list \<Rightarrow> string \<Rightarrow> node \<Rightarrow> (string \<times> node) list" where
  "assign result key v = (if key = ''__proto__'' then result else AList.update key v result)"

function resolveVariables :: "node \<Rightarrow> store \<Rightarrow> node res"
  and resolve_properties :: "(string \<times> node) list \<Rightarrow> store \<Rightarrow> (string \<times> node) list \<Rightarrow> node res" where
  "resolveVariables (Arr xs) lookup = resolve_properties (array_entries xs) lookup []"
| "resolveVariables (Obj es) lookup = resolve_properties es lookup []"
| "resolveVariables (Leaf v) lookup =
     (case resolve_scalar v lookup of
        Ok r \<Rightarrow> Ok (Leaf r)
      | Throw e \<Rightarrow> Throw e
      | Diverge \<Rightarrow> Diverge)"
| "resolve_properties [] lookup result = Ok (Obj (own_entries result))"
| "resolve_properties ((key, val) # rest) lookup result =
     (case resolveVariables val lookup of
        Ok r \<Rightarrow> resolve_properties rest lookup (assign result key r)
      | Throw e \<Rightarrow> Throw e
      | Diverge \<Rightarrow> Diverge)"
  by pat_completeness auto

lemma size_object_entries_le:
  "size_list (\<lambda>p. size (snd p)) es \<le> size_list (size_prod (\<lambda>_. 0) size) es"
  by (induction es) auto

termination resolveVariables
proof (relation "measure (\<lambda>x. case x of
          Inl (n, lookup) \<Rightarrow> 2 * size n
        | Inr (es, lookup, result) \<Rightarrow> Suc (2 * size_list (\<lambda>p. size (snd p)) es))")
  show "wf (measure (\<lambda>x. case x of
          Inl (n, lookup) \<Rightarrow> 2 * size n
        | Inr (es, lookup, result) \<Rightarrow> Suc (2 * size_list (\<lambda>p. size (snd p)) es)))"
    by simp
next
  fix es :: "(string \<times> node) list" and lookup :: store
  show "(Inr (es, lookup, []), Inl (Obj es, lookup)) \<in> measure (\<lambda>x. case x of
          Inl (n, lookup) \<Rightarrow> 2 * size n
        | Inr (es, lookup, result) \<Rightarrow> Suc (2 * size_list (\<lambda>p. size (snd p)) es))"
    using size_object_entries_le [of es] by simp
qed (simp_all add: size_array_entries)

section \<open>Filtering and publishing\<close>

text \<open>
  A compiled regular expression is what it matches: given the subject and the index to
  search from, the leftmost match at or after that index as (start, end). \<open>regex_exec\<close>
  keeps only answers a matcher can give.
\<close>

type_synonym regex = "string \<Rightarrow> nat \<Rightarrow> (nat \<times> nat) option"

definition regex_exec :: "regex \<Rightarrow> string \<Rightarrow> nat \<Rightarrow> (nat \<times> nat) option" where
  "regex_exec r s i =
     (case r s i of
        Some (a, b) \<Rightarrow> if i \<le> a \<and> a \<le> b \<and> b \<le> length s then Some (a, b) else None
      | None \<Rightarrow> None)"

text \<open>
  \<^verbatim>\<open>patternRegex.test(fullKey)\<close> with the \<^verbatim>\<open>g\<close> flag: the search starts at \<^verbatim>\<open>lastIndex\<close>,
  which becomes the end of the match, or 0 when there is none.
\<close>

definition regex_test :: "regex \<Rightarrow> string \<Rightarrow> nat \<Rightarrow> bool \<times> nat" where
  "regex_test r s lastIndex =
     (case regex_exec r s lastIndex of
        Some (a, b) \<Rightarrow> (True, b)
      | None \<Rightarrow> (False, 0))"

text \<open>
  \<^verbatim>\<open>str.replace(regex, replacement)\<close> with the \<^verbatim>\<open>g\<close> flag, for a replacement without a
  dollar sign: the search restarts at 0 and goes on after each match (one further after
  an empty match); every match is replaced.
\<close>

function replace_matches :: "regex \<Rightarrow> string \<Rightarrow> string \<Rightarrow> nat \<Rightarrow> nat \<Rightarrow> string" where
  "replace_matches r replacement s lastIndex nextPosition =
     (case regex_exec r s lastIndex of
        None \<Rightarrow> drop nextPosition s
      | Some (a, b) \<Rightarrow>
          if nextPosition \<le> a
          then take (a - nextPosition) (drop nextPosition s) @ replacement
                 @ replace_matches r replacement s (if b = a then b + 1 else b) b
          else replace_matches r replacement s (if b = a then b + 1 else b) nextPosition)"
  by pat_completeness auto

termination replace_matches
  by (relation "measure (\<lambda>(r, replacement, s, lastIndex, nextPosition). Suc (length s) - lastIndex)")
     (auto simp: regex_exec_def split: option.splits if_splits)

declare replace_matches.simps [simp del]

definition regex_replace_all :: "regex \<Rightarrow> string \<Rightarrow> string \<Rightarrow> string" where
  "regex_replace_all r s replacement = replace_matches r replacement s 0 0"

text \<open>\<^verbatim>\<open>/[.\-]/g\<close>: the first character at or after the index that is a dot or a hyphen.\<close>

definition char_class_regex :: "string \<Rightarrow> regex" where
  "char_class_regex cs s i =
     (let k = i + length (takeWhile (\<lambda>c. c \<notin> set cs) (drop i s))
      in if k < length s then Some (k, Suc k) else None)"

definition envNameCleaner :: regex where
  "envNameCleaner = char_class_regex ''.-''"

text \<open>
  The body of the second loop up to \<^verbatim>\<open>if (!include) continue\<close>: the output key, or
  \<open>None\<close> for a key left out, and \<^verbatim>\<open>lastIndex\<close> afterwards.
\<close>

definition filter_key :: "regex option \<Rightarrow> string \<Rightarrow> nat \<Rightarrow> string option \<times> nat" where
  "filter_key patternRegex fullKey lastIndex =
     (case patternRegex of
        None \<Rightarrow> (Some fullKey, lastIndex)
      | Some r \<Rightarrow>
          (case regex_test r fullKey lastIndex of
             (True, lastIndex') \<Rightarrow> (Some (regex_replace_all r fullKey []), 0)
           | (False, lastIndex') \<Rightarrow> (None, lastIndex')))"

definition env_name :: "string \<Rightarrow> string \<Rightarrow> string" where
  "env_name envPrefix outputKey = envPrefix @ ''_'' @ regex_replace_all envNameCleaner outputKey ''_''"

definition publish_entry :: "string \<Rightarrow> string \<Rightarrow> scalar \<Rightarrow> effect list" where
  "publish_entry envPrefix outputKey rawValue =
     [Info (outputKey @ '' : '' @ to_string rawValue), SetOutput outputKey (Leaf rawValue)]
     @ (if envPrefix \<noteq> []
        then [Info (env_name envPrefix outputKey @ ''='' @ to_string rawValue),
              ExportVariable (env_name envPrefix outputKey) rawValue]
        else [])"

fun publish :: "regex option \<Rightarrow> string \<Rightarrow> (string \<times> scalar) list \<Rightarrow> nat \<Rightarrow> effect list" where
  "publish patternRegex envPrefix [] lastIndex = []"
| "publish patternRegex envPrefix ((fullKey, rawValue) # rest) lastIndex =
     (case filter_key patternRegex fullKey lastIndex of
        (Some outputKey, lastIndex') \<Rightarrow>
          publish_entry envPrefix outputKey rawValue @ publish patternRegex envPrefix rest lastIndex'
      | (None, lastIndex') \<Rightarrow> publish patternRegex envPrefix rest lastIndex')"

section \<open>The action: \<^verbatim>\<open>run\<close>\<close>

text \<open>
  The surroundings of one invocation: the inputs as \<^verbatim>\<open>core.getInput\<close> returns them (the
  empty string for an input that is not set), the answer of the subscription check, what
  \<^verbatim>\<open>fs.readFile\<close> does with a path (it refuses the argument and throws at once, before
  any reading, or it reads and calls back with an error or with the contents), the parser \<^verbatim>\<open>yaml.load\<close> and the constructor \<^verbatim>\<open>new RegExp\<close>.
\<close>

datatype subscription_check = Valid | Forbidden | Unreachable

datatype read_result = ReadThrows exn | ReadFails string | ReadOk string

record env =
  getInput :: "string \<Rightarrow> string"
  subscription :: subscription_check
  readFile :: "string \<Rightarrow> read_result"
  yaml_load :: "string \<Rightarrow> exn + node"
  new_RegExp :: "string \<Rightarrow> exn + regex"

text \<open>
  How an invocation ends: the code ran to its end, \<^verbatim>\<open>process.exit\<close> was called, an
  exception left the \<^verbatim>\<open>readFile\<close> callback (nothing catches it there: the \<^verbatim>\<open>try\<close> of
  \<^verbatim>\<open>run\<close> was left when \<^verbatim>\<open>readFile\<close> returned), or the code never returns.
\<close>

datatype ending = Finished | Exited nat | Uncaught exn | NeverReturns

record outcome =
  effects :: "effect list"
  ending :: ending

definition validateSubscription :: "subscription_check \<Rightarrow> effect list \<times> bool" where
  "validateSubscription check =
     (case check of
        Valid \<Rightarrow> ([], True)
      | Forbidden \<Rightarrow> ([ErrorLog ''Subscription is not valid. Reach out to support@stepsecurity.io''], False)
      | Unreachable \<Rightarrow> ([Info ''Timeout or API not reachable. Continuing to next step.''], True))"

text \<open>The callback given to \<^verbatim>\<open>fs.readFile\<close>, after its \<^verbatim>\<open>if (error)\<close>.\<close>

definition on_read :: "env \<Rightarrow> string \<Rightarrow> string \<Rightarrow> effect list \<Rightarrow> string \<Rightarrow> outcome" where
  "on_read e filterPattern envPrefix said raw =
     (let started = said
            @ (if filterPattern \<noteq> [] then [Info (''Filter pattern detected: '' @ filterPattern)] else [])
            @ [Info ''YAML file content loaded successfully.'']
      in case yaml_load e raw of
           Inl x \<Rightarrow> \<lparr>effects = started, ending = Uncaught x\<rparr>
         | Inr parsed \<Rightarrow>
             (case traverse parsed [] \<lparr>resolvedValues = empty_store, emitted = started\<rparr> of
                (Thrown x, st) \<Rightarrow> \<lparr>effects = emitted st, ending = Uncaught x\<rparr>
              | (Hangs, st) \<Rightarrow> \<lparr>effects = emitted st, ending = NeverReturns\<rparr>
              | (Normal, st) \<Rightarrow>
                  (case (if filterPattern \<noteq> [] then map_sum id Some (new_RegExp e filterPattern)
                         else Inr None) of
                     Inl x \<Rightarrow> \<lparr>effects = emitted st, ending = Uncaught x\<rparr>
                   | Inr patternRegex \<Rightarrow>
                       \<lparr>effects = emitted st
                          @ publish patternRegex envPrefix (own_entries (props (resolvedValues st))) 0,
                        ending = Finished\<rparr>)))"

definition run :: "env \<Rightarrow> outcome" where
  "run e =
     (case validateSubscription (subscription e) of
        (said, False) \<Rightarrow> \<lparr>effects = said, ending = Exited 1\<rparr>
      | (said, True) \<Rightarrow>
          (let yamlPath = getInput e ''config'';
               filterPattern = getInput e ''key-path-pattern'';
               envPrefix = getInput e ''env-var-prefix''
           in case readFile e yamlPath of
                ReadThrows x \<Rightarrow> \<lparr>effects = said @ [SetFailed (message x)], ending = Finished\<rparr>
              | ReadFails why \<Rightarrow>
                  \<lparr>effects = said @ [ErrorLog (''Failed to read YAML: '' @ why)], ending = Finished\<rparr>
              | ReadOk raw \<Rightarrow> on_read e filterPattern envPrefix said raw))"

section \<open>Flattening as a list of leaves\<close>

text \<open>
  The specification describes flattening as a depth-first list of (flat key, leaf) pairs
  and interpolation as resolving each leaf against the mapping built so far. These two
  definitions follow that description; \<open>traverse_entries\<close> above follows the code, and
  the two are compared below.
\<close>

function flatten :: "(string \<times> node) list \<Rightarrow> string \<Rightarrow> (string \<times> scalar) list" where
  "flatten [] path = []"
| "flatten ((key, Arr xs) # rest) path =
     flatten (array_entries xs) (full_key path key) @ flatten rest path"
| "flatten ((key, Obj es) # rest) path = flatten es (full_key path key) @ flatten rest path"
| "flatten ((key, Leaf v) # rest) path = (full_key path key, v) # flatten rest path"
  by pat_completeness auto

termination flatten
proof (relation "measure (\<lambda>(es, path). size_list (\<lambda>p. size (snd p)) es)")
  show "wf (measure (\<lambda>(es, path). size_list (\<lambda>p. size (snd p)) es))"
    by simp
qed (simp_all add: size_array_entries size_object_entries)

fun resolve_all :: "(string \<times> scalar) list \<Rightarrow> store \<Rightarrow> completion \<times> store" where
  "resolve_all [] lookup = (Normal, lookup)"
| "resolve_all ((k, v) # rest) lookup =
     (case resolve_scalar v lookup of
        Ok r \<Rightarrow> resolve_all rest (js_set lookup k r)
      | Throw e \<Rightarrow> (Thrown e, lookup)
      | Diverge \<Rightarrow> (Hangs, lookup))"

section \<open>Removing matches, as a list of spans\<close>

text \<open>
  The matches a global regular expression finds one after another from an index on, and
  a text without a list of ascending spans. They state what \<^verbatim>\<open>replace\<close> with the \<^verbatim>\<open>g\<close>
  flag and an empty replacement computes.
\<close>

function all_matches :: "regex \<Rightarrow> string \<Rightarrow> nat \<Rightarrow> (nat \<times> nat) list" where
  "all_matches r s lastIndex =
     (case regex_exec r s lastIndex of
        None \<Rightarrow> []
      | Some (a, b) \<Rightarrow> (a, b) # all_matches r s (if b = a then b + 1 else b))"
  by pat_completeness auto

termination all_matches
  by (relation "measure (\<lambda>(r, s, lastIndex). Suc (length s) - lastIndex)")
     (auto simp: regex_exec_def split: option.splits if_splits)

declare all_matches.simps [simp del]

fun cut_spans :: "(nat \<times> nat) list \<Rightarrow> nat \<Rightarrow> string \<Rightarrow> string" where
  "cut_spans [] position s = drop position s"
| "cut_spans ((a, b) # spans) position s =
     take (a - position) (drop position s) @ cut_spans spans b s"

text \<open>
  Spans that follow one another from a position on, within a text of length \<open>n\<close>, and a
  span that holds no text.
\<close>

fun ascending :: "nat \<Rightarrow> (nat \<times> nat) list \<Rightarrow> nat \<Rightarrow> bool" where
  "ascending position [] n = True"
| "ascending position ((a, b) # spans) n =
     (position \<le> a \<and> a \<le> b \<and> b \<le> n \<and> ascending b spans n)"

fun is_empty_span :: "nat \<times> nat \<Rightarrow> bool" where
  "is_empty_span (a, b) = (a = b)"

section \<open>The passes of the loop\<close>

text \<open>
  The value of \<^verbatim>\<open>current\<close> at the head of the \<^verbatim>\<open>while\<close> loop after \<open>n\<close> replacements,
  when the loop gets that far.
\<close>

fun current_after :: "nat \<Rightarrow> store \<Rightarrow> string \<Rightarrow> string option" where
  "current_after 0 lookup s = Some s"
| "current_after (Suc n) lookup s =
     (case current_after n lookup s of
        None \<Rightarrow> None
      | Some current \<Rightarrow>
          (case match_token current of
             None \<Rightarrow> None
           | Some ref \<Rightarrow>
               if \<not> truthy_property (js_get lookup ref) then None
               else (case js_replace current (token ref) (js_get lookup ref) of
                       Ok current' \<Rightarrow> Some current'
                     | Throw e \<Rightarrow> None
                     | Diverge \<Rightarrow> None)))"

section \<open>Inputs used in the examples\<close>

text \<open>An effect that only writes to the log.\<close>

fun is_log :: "effect \<Rightarrow> bool" where
  "is_log (Info m) = True"
| "is_log (ErrorLog m) = True"
| "is_log x = False"

text \<open>An invocation whose configuration file does not exist.\<close>

definition missing_file_env :: env where
  "missing_file_env =
     \<lparr>getInput = (\<lambda>name. if name = ''config'' then ''missing.yaml'' else []),
      subscription = Unreachable,
      readFile = (\<lambda>path. ReadFails ''ENOENT: no such file or directory''),
      yaml_load = (\<lambda>raw. Inr (Obj [])),
      new_RegExp = (\<lambda>pattern. Inl (Error ''unused''))\<rparr>"

text \<open>A fresh traversal state, and the document \<^verbatim>\<open>{b: "$(a)2", a: "1"}\<close>.\<close>

definition forward_reference :: "(string \<times> node) list" where
  "forward_reference = [(''b'', Leaf (Str ''$(a)2'')), (''a'', Leaf (Str ''1''))]"

definition fresh :: tstate where
  "fresh = \<lparr>resolvedValues = empty_store, emitted = []\<rparr>"

text \<open>
  The regular expression of a pattern without special characters, such as
  \<^verbatim>\<open>/config\./g\<close>: the first occurrence of the text at or after the index.
\<close>

definition literal_regex :: "string \<Rightarrow> regex" where
  "literal_regex p s i =
     (case index_of p (drop i s) of
        Some k \<Rightarrow> Some (i + k, i + k + length p)
      | None \<Rightarrow> None)"

text \<open>
  The regular expression of a pattern that anchors a text at the start, such as
  \<^verbatim>\<open>/^service\./g\<close>.
\<close>

definition prefix_regex :: "string \<Rightarrow> regex" where
  "prefix_regex p s i = (if i = 0 \<and> take (length p) s = p then Some (0, length p) else None)"

text \<open>
  The document \<^verbatim>\<open>{service: {name: web}, deploy: {region: europe}}\<close>, and an invocation
  that reads it with the pattern \<^verbatim>\<open>^service\.\<close> given under the input name \<open>input\<close> and no
  other input but \<^verbatim>\<open>config\<close>.
\<close>

definition services_document :: node where
  "services_document =
     Obj [(''service'', Obj [(''name'', Leaf (Str ''web''))]),
          (''deploy'', Obj [(''region'', Leaf (Str ''europe''))])]"

definition service_pattern :: string where
  "service_pattern = ''^service'' @ [CHR 0x5C] @ ''.''"

definition services_env :: "string \<Rightarrow> env" where
  "services_env input =
     \<lparr>getInput = (\<lambda>name. if name = ''config'' then ''services.yaml''
                          else if name = input then service_pattern else []),
      subscription = Valid,
      readFile = (\<lambda>path. ReadOk ''service: ...''),
      yaml_load = (\<lambda>raw. Inr services_document),
      new_RegExp = (\<lambda>pattern. Inr (prefix_regex ''service.''))\<rparr>"

text \<open>An invocation with no input but \<^verbatim>\<open>config\<close>, whose file parses as given.\<close>

definition document_env :: "(exn + node) \<Rightarrow> env" where
  "document_env parsed =
     \<lparr>getInput = (\<lambda>name. if name = ''config'' then ''config.yaml'' else []),
      subscription = Valid,
      readFile = (\<lambda>path. ReadOk ''...''),
      yaml_load = (\<lambda>raw. parsed),
      new_RegExp = (\<lambda>pattern. Inl (Error ''unused''))\<rparr>"

text \<open>A \<^verbatim>\<open>setOutput\<close> that carries a list.\<close>

fun is_array_output :: "effect \<Rightarrow> bool" where
  "is_array_output (SetOutput k (Arr xs)) = True"
| "is_array_output x = False"


text \<open>A document in which a key with a dot in it meets the name of a list output.\<close>

definition colliding_document :: "(string \<times> node) list" where
  "colliding_document =
     [(''p'', Arr [Leaf (Str ''x'')]), (''p.array'', Leaf (Str ''y'')),
      (''q'', Leaf (Str ''$(p.array)''))]"

text \<open>
  The document \<^verbatim>\<open>{p: [x], v: "1", q: "$(v)-$(p.array)"}\<close>, and the mapping when \<^verbatim>\<open>q\<close> is
  reached.
\<close>

definition list_document :: "(string \<times> node) list" where
  "list_document =
     [(''p'', Arr [Leaf (Str ''x'')]), (''v'', Leaf (Str ''1'')),
      (''q'', Leaf (Str ''$(v)-$(p.array)''))]"

definition list_seen :: store where
  "list_seen = \<lparr>props = [(''p.0'', Str ''x''), (''v'', Str ''1'')], proto = True\<rparr>"

section \<open>Properties\<close>

subsection \<open>A file that cannot be read\<close>

text \<open>
  Claim C7. When reading the configuration file fails, the action logs the error with
  \<^verbatim>\<open>core.error\<close> and stops: the invocation ends normally, the effects are the line of
  the subscription check (if any) followed by that one error line, so nothing is
  published and \<^verbatim>\<open>core.setFailed\<close> is not called. (A subscription answer of 403 ends
  the process before the file is read.)
\<close>

theorem read_failure_is_only_logged:
  assumes "subscription e \<noteq> Forbidden"
    and "readFile e (getInput e ''config'') = ReadFails why"
  shows "ending (run e) = Finished
     \<and> effects (run e)
         = fst (validateSubscription (subscription e)) @ [ErrorLog (''Failed to read YAML: '' @ why)]
     \<and> list_all is_log (effects (run e))"
  using assms by (cases "subscription e") (simp_all add: run_def validateSubscription_def)

theorem read_failure_is_only_logged_witness:
  "subscription missing_file_env \<noteq> Forbidden
   \<and> readFile missing_file_env (getInput missing_file_env ''config'')
       = ReadFails ''ENOENT: no such file or directory''
   \<and> run missing_file_env
       = \<lparr>effects = [Info ''Timeout or API not reachable. Continuing to next step.'',
                     ErrorLog ''Failed to read YAML: ENOENT: no such file or directory''],
          ending = Finished\<rparr>"
proof -
  have a: "subscription missing_file_env \<noteq> Forbidden"
    by (simp add: missing_file_env_def)
  have b: "readFile missing_file_env (getInput missing_file_env ''config'')
       = ReadFails ''ENOENT: no such file or directory''"
    by (simp add: missing_file_env_def)
  have c: "validateSubscription (subscription missing_file_env)
       = ([Info ''Timeout or API not reachable. Continuing to next step.''], True)"
    by (simp add: missing_file_env_def validateSubscription_def)
  from read_failure_is_only_logged [OF a b] c show ?thesis
    using a b by (cases "run missing_file_env") simp
qed

subsection \<open>Names of environment variables\<close>

text \<open>
  Replacing every match of a character class by one character maps the text character
  by character.
\<close>

lemma takeWhile_covers:
  assumes "i \<le> length s" and "\<not> i + length (takeWhile P (drop i s)) < length s"
  shows "\<forall>c \<in> set (drop i s). P c"
proof -
  have "length (takeWhile P (drop i s)) \<le> length (drop i s)"
    by (rule length_takeWhile_le)
  with assms have "length (takeWhile P (drop i s)) = length (drop i s)"
    by simp
  then have "takeWhile P (drop i s) = drop i s"
    by (metis takeWhile_eq_take take_all order_refl)
  then show ?thesis
    by (simp only: takeWhile_eq_all_conv)
qed

lemma char_class_replace:
  "i \<le> length s \<Longrightarrow>
   replace_matches (char_class_regex cs) [u] s i i
     = map (\<lambda>c. if c \<in> set cs then u else c) (drop i s)"
proof (induction "length s - i" arbitrary: i rule: less_induct)
  case less
  let ?P = "\<lambda>c. c \<notin> set cs"
  let ?pre = "takeWhile ?P (drop i s)"
  let ?k = "i + length ?pre"
  show ?case
  proof (cases "?k < length s")
    case False
    have "\<forall>c \<in> set (drop i s). c \<notin> set cs"
      by (rule takeWhile_covers [OF less.prems False])
    then have "map (\<lambda>c. if c \<in> set cs then u else c) (drop i s) = drop i s"
      by (simp add: map_idI)
    moreover have "regex_exec (char_class_regex cs) s i = None"
      using False by (simp add: regex_exec_def char_class_regex_def Let_def)
    ultimately show ?thesis
      by (simp add: replace_matches.simps)
  next
    case True
    then have ex: "regex_exec (char_class_regex cs) s i = Some (?k, Suc ?k)"
      by (simp add: regex_exec_def char_class_regex_def Let_def)
    have split: "drop i s = ?pre @ dropWhile ?P (drop i s)"
      by simp
    have len: "length ?pre < length (drop i s)"
      using True by simp
    then have ne: "dropWhile ?P (drop i s) \<noteq> []"
      by (metis split append_Nil2 less_irrefl)
    have hd_in: "hd (dropWhile ?P (drop i s)) \<in> set cs"
      using ne hd_dropWhile by (metis (mono_tags, lifting))
    have dw: "dropWhile ?P (drop i s) = drop ?k s"
      by (metis dropWhile_eq_drop drop_drop add.commute)
    then obtain x where x: "drop ?k s = x # drop (Suc ?k) s" "x \<in> set cs"
      using ne hd_in by (metis Cons_nth_drop_Suc True list.sel(1))
    have pre_id: "map (\<lambda>c. if c \<in> set cs then u else c) ?pre = ?pre"
      by (rule map_idI) (auto dest: set_takeWhileD)
    have IH: "replace_matches (char_class_regex cs) [u] s (Suc ?k) (Suc ?k)
        = map (\<lambda>c. if c \<in> set cs then u else c) (drop (Suc ?k) s)"
      using True less.prems less.hyps [of "Suc ?k"] by simp
    have tk: "take (length ?pre) (drop i s) = ?pre"
      by (metis takeWhile_eq_take)
    have "replace_matches (char_class_regex cs) [u] s i i
        = ?pre @ [u] @ replace_matches (char_class_regex cs) [u] s (Suc ?k) (Suc ?k)"
      by (subst replace_matches.simps) (simp add: ex tk del: length_takeWhile_le)
    also have "\<dots> = map (\<lambda>c. if c \<in> set cs then u else c) (?pre @ drop ?k s)"
      using pre_id IH x by simp
    also have "?pre @ drop ?k s = drop i s"
      using split dw by simp
    finally show ?thesis .
  qed
qed

lemma env_name_eq:
  "env_name envPrefix outputKey
     = envPrefix @ ''_'' @ map (\<lambda>c. if c = CHR ''.'' \<or> c = CHR ''-'' then CHR ''_'' else c) outputKey"
  using char_class_replace [of 0 outputKey "''.-''" "CHR ''_''"]
  by (simp add: env_name_def envNameCleaner_def regex_replace_all_def)

text \<open>
  Claim C8. For a key that passes the filter while \<^verbatim>\<open>env-var-prefix\<close> is set, the loop
  publishes the output and then exports a variable whose name is the prefix, an
  underscore, and the output key with every dot and every hyphen replaced by an
  underscore.
\<close>

theorem exported_variable_name:
  assumes "envPrefix \<noteq> []"
    and "filter_key patternRegex fullKey lastIndex = (Some outputKey, lastIndex')"
    and "envName = envPrefix @ ''_''
           @ map (\<lambda>c. if c = CHR ''.'' \<or> c = CHR ''-'' then CHR ''_'' else c) outputKey"
  shows "publish patternRegex envPrefix ((fullKey, rawValue) # rest) lastIndex
     = [Info (outputKey @ '' : '' @ to_string rawValue),
        SetOutput outputKey (Leaf rawValue),
        Info (envName @ ''='' @ to_string rawValue),
        ExportVariable envName rawValue]
       @ publish patternRegex envPrefix rest lastIndex'"
  using assms by (simp add: publish_entry_def env_name_eq)

theorem exported_variable_name_witness:
  "''APP_CONF'' \<noteq> []
   \<and> filter_key None ''application.config.port'' 0 = (Some ''application.config.port'', 0)
   \<and> publish None ''APP_CONF'' [(''application.config.port'', Str ''8080''), (''a-b.c'', Str ''1'')] 0
     = [Info ''application.config.port : 8080'',
        SetOutput ''application.config.port'' (Leaf (Str ''8080'')),
        Info ''APP_CONF_application_config_port=8080'',
        ExportVariable ''APP_CONF_application_config_port'' (Str ''8080''),
        Info ''a-b.c : 1'',
        SetOutput ''a-b.c'' (Leaf (Str ''1'')),
        Info ''APP_CONF_a_b_c=1'',
        ExportVariable ''APP_CONF_a_b_c'' (Str ''1'')]"
proof -
  have f: "filter_key None k 0 = (Some k, 0)" for k
    by (simp add: filter_key_def)
  have n: "''APP_CONF'' \<noteq> []"
    by simp
  show ?thesis
    using exported_variable_name [OF n f refl, of "''application.config.port''" "Str ''8080''"
            "[(''a-b.c'', Str ''1'')]"]
          exported_variable_name [OF n f refl, of "''a-b.c''" "Str ''1''" "[]"]
    by (simp add: f)
qed

subsection \<open>Traversal and the list of leaves\<close>

lemma resolve_all_append:
  "resolve_all (xs @ ys) lookup =
     (case resolve_all xs lookup of
        (Normal, l') \<Rightarrow> resolve_all ys l'
      | (Thrown e, l') \<Rightarrow> (Thrown e, l')
      | (Hangs, l') \<Rightarrow> (Hangs, l'))"
  by (induction xs arbitrary: lookup) (auto split: res.splits)

lemma traverse_resolvedValues:
  "map_prod id resolvedValues (traverse_entries es path st)
     = resolve_all (flatten es path) (resolvedValues st)"
proof (induction es path st rule: traverse_entries.induct)
  case (1 path st)
  then show ?case by simp
next
  case (2 key xs rest path st)
  show ?case
  proof (cases "traverse_entries (array_entries xs) (full_key path key)
             (publish_array (full_key path key) xs st)")
    case (Pair c st')
    with 2 show ?thesis
      by (cases c) (auto simp: resolve_all_append publish_array_def split: prod.splits)
  qed
next
  case (3 key es rest path st)
  show ?case
  proof (cases "traverse_entries es (full_key path key) st")
    case (Pair c st')
    with 3 show ?thesis
      by (cases c) (auto simp: resolve_all_append split: prod.splits)
  qed
next
  case (4 key v rest path st)
  then show ?case
    by (cases "resolve_scalar v (resolvedValues st)") auto
qed

lemma js_set_keys:
  "fst ` set (props (js_set lookup k v)) \<subseteq> insert k (fst ` set (props lookup))"
  by (auto simp: js_set_def dom_update)

lemma resolve_all_keys:
  "resolve_all xs lookup = (c, l') \<Longrightarrow>
   fst ` set (props l') \<subseteq> fst ` set (props lookup) \<union> fst ` set xs"
proof (induction xs arbitrary: lookup)
  case Nil
  then show ?case by simp
next
  case (Cons x xs)
  obtain k v where x: "x = (k, v)" by (cases x)
  show ?case
  proof (cases "resolve_scalar v lookup")
    case (Ok r)
    with Cons.prems x have "resolve_all xs (js_set lookup k r) = (c, l')"
      by simp
    from Cons.IH [OF this] js_set_keys [of lookup k r] show ?thesis
      using x by auto
  next
    case (Throw e)
    with Cons.prems x show ?thesis by auto
  next
    case Diverge
    with Cons.prems x show ?thesis by auto
  qed
qed

lemma resolve_loop_no_token:
  assumes "resolve_loop lookup current = Some y"
  shows "y = Ok r \<longrightarrow> match_token r = None"
proof (rule resolve_loop.raw_induct
    [where P = "\<lambda>lookup current y. y = Ok r \<longrightarrow> match_token r = None", OF _ assms])
  fix f lookup current y
  assume IH: "\<And>lookup current y. f lookup current = Some y \<Longrightarrow> y = Ok r \<longrightarrow> match_token r = None"
    and step: "(case match_token current of
        None \<Rightarrow> Some (Ok current)
      | Some ref \<Rightarrow>
          if \<not> truthy_property (js_get lookup ref)
          then Some (Throw (Error (undefined_message ref)))
          else (case js_replace current (token ref) (js_get lookup ref) of
                  Ok current' \<Rightarrow> f lookup current'
                | Throw e \<Rightarrow> Some (Throw e)
                | Diverge \<Rightarrow> Some Diverge)) = Some y"
  show "y = Ok r \<longrightarrow> match_token r = None"
    using step IH by (auto split: option.splits if_splits res.splits)
qed

lemma resolve_scalar_no_token:
  "resolve_scalar (Str s) lookup = Ok v \<Longrightarrow> \<exists>r. v = Str r \<and> match_token r = None"
  using resolve_loop_no_token by (auto split: option.splits res.splits)

lemma resolve_loop_undefined:
  "match_token s = Some n \<Longrightarrow> \<not> truthy_property (js_get lookup n) \<Longrightarrow>
   resolve_loop lookup s = Some (Throw (Error (undefined_message n)))"
  by (subst resolve_loop.simps) simp

text \<open>
  The order of resolution. Let the leaves of the document in depth-first order be
  \<open>earlier\<close>, then the string leaf \<open>s\<close> at flat key \<open>k\<close>, then \<open>later\<close>, and let \<open>seen\<close> be
  the mapping after the earlier leaves were resolved. Then traversal resolves \<open>s\<close> against
  \<open>seen\<close> and only then stores it under \<open>k\<close> (when resolution throws, nothing is stored
  and the later leaves are not looked at); \<open>seen\<close> holds no key but those it started with
  and those of the earlier leaves; a value that is stored has no token left in it; and a
  first reference to a name that is neither a key the mapping started with, nor the flat
  key of an earlier leaf, nor a member of \<^verbatim>\<open>Object.prototype\<close>, makes traversal throw the
  error that names it, whatever the later leaves define.
\<close>

theorem values_resolved_in_traversal_order:
  assumes "flatten es path = earlier @ (k, Str s) # later"
    and "resolve_all earlier (resolvedValues st) = (Normal, seen)"
  shows "map_prod id resolvedValues (traverse_entries es path st)
       = (case resolve_scalar (Str s) seen of
            Ok r \<Rightarrow> resolve_all later (js_set seen k r)
          | Throw e \<Rightarrow> (Thrown e, seen)
          | Diverge \<Rightarrow> (Hangs, seen))
     \<and> fst ` set (props seen) \<subseteq> fst ` set (props (resolvedValues st)) \<union> fst ` set earlier
     \<and> (\<forall>r. resolve_scalar (Str s) seen = Ok r \<longrightarrow> (\<exists>t. r = Str t \<and> match_token t = None))
     \<and> (\<forall>n. match_token s = Some n \<and> n \<notin> set object_prototype_members
              \<and> n \<notin> fst ` set (props (resolvedValues st)) \<and> n \<notin> fst ` set earlier \<longrightarrow>
            fst (traverse_entries es path st) = Thrown (Error (undefined_message n)))"
proof (intro conjI allI impI)
  show a: "map_prod id resolvedValues (traverse_entries es path st)
       = (case resolve_scalar (Str s) seen of
            Ok r \<Rightarrow> resolve_all later (js_set seen k r)
          | Throw e \<Rightarrow> (Thrown e, seen)
          | Diverge \<Rightarrow> (Hangs, seen))"
    using assms by (simp add: traverse_resolvedValues resolve_all_append del: resolve_scalar.simps)
  show "fst ` set (props seen) \<subseteq> fst ` set (props (resolvedValues st)) \<union> fst ` set earlier"
    using resolve_all_keys [OF assms(2)] .
  show "\<exists>t. r = Str t \<and> match_token t = None" if "resolve_scalar (Str s) seen = Ok r" for r
    using that by (rule resolve_scalar_no_token)
  show "fst (traverse_entries es path st) = Thrown (Error (undefined_message n))"
    if h: "match_token s = Some n \<and> n \<notin> set object_prototype_members
              \<and> n \<notin> fst ` set (props (resolvedValues st)) \<and> n \<notin> fst ` set earlier" for n
  proof -
    from h resolve_all_keys [OF assms(2)] have "n \<notin> fst ` set (props seen)"
      by auto
    then have "map_of (props seen) n = None"
      by (simp add: map_of_eq_None_iff)
    with h have "\<not> truthy_property (js_get seen n)"
      by (simp add: js_get_def)
    with h have "resolve_scalar (Str s) seen = Throw (Error (undefined_message n))"
      using resolve_loop_undefined [of s n seen] by simp
    with a have "map_prod id resolvedValues (traverse_entries es path st)
        = (Thrown (Error (undefined_message n)), seen)"
      by simp
    then show ?thesis
      by (cases "traverse_entries es path st") simp
  qed
qed

theorem values_resolved_in_traversal_order_witness:
  \<open>flatten forward_reference [] = [] @ (''b'', Str ''$(a)2'') # [(''a'', Str ''1'')]
   \<and> resolve_all [] (resolvedValues fresh) = (Normal, empty_store)
   \<and> match_token ''$(a)2'' = Some ''a''
   \<and> ''a'' \<notin> set object_prototype_members
   \<and> traverse_entries forward_reference [] fresh
       = (Thrown (Error ''Variable "a" is not defined''), fresh)\<close>
proof -
  have f: "flatten forward_reference [] = [] @ (''b'', Str ''$(a)2'') # [(''a'', Str ''1'')]"
    by (simp add: forward_reference_def full_key_def)
  have r: "resolve_all [] (resolvedValues fresh) = (Normal, empty_store)"
    by (simp add: fresh_def)
  have m: "match_token ''$(a)2'' = Some ''a''"
    by (simp add: token_at_def)
  have g: "''a'' \<notin> set object_prototype_members"
    by (simp add: object_prototype_members_def)
  have k: "''a'' \<notin> fst ` set (props (resolvedValues fresh))" "''a'' \<notin> fst ` set []"
    by (simp_all add: fresh_def empty_store_def)
  from values_resolved_in_traversal_order [OF f r] m g k
  have "fst (traverse_entries forward_reference [] fresh) = Thrown (Error (undefined_message ''a''))"
    by blast
  moreover have "snd (traverse_entries forward_reference [] fresh) = fresh"
    by (simp add: forward_reference_def fresh_def resolve_loop.simps token_at_def js_get_def
        empty_store_def object_prototype_members_def)
  ultimately show ?thesis
    using f r m g by (simp add: prod_eq_iff undefined_message_def)
qed

subsection \<open>The key filter\<close>

lemma regex_exec_bounds:
  "regex_exec r s i = Some (a, b) \<Longrightarrow> i \<le> a \<and> a \<le> b \<and> b \<le> length s"
  by (auto simp: regex_exec_def split: option.splits if_splits)

lemma replace_matches_cut:
  "nextPosition \<le> lastIndex \<Longrightarrow>
   replace_matches r [] s lastIndex nextPosition
     = cut_spans (all_matches r s lastIndex) nextPosition s"
proof (induction r "[]::string" s lastIndex nextPosition rule: replace_matches.induct)
  case (1 r s lastIndex nextPosition)
  show ?case
  proof (cases "regex_exec r s lastIndex")
    case None
    then show ?thesis
      by (simp add: replace_matches.simps [of r _ s lastIndex] all_matches.simps [of r s lastIndex])
  next
    case (Some m)
    obtain a b where m: "m = (a, b)" by (cases m)
    from Some m have ex: "regex_exec r s lastIndex = Some (a, b)" by simp
    from regex_exec_bounds [OF ex] have b: "lastIndex \<le> a" "a \<le> b" by auto
    with 1(3) have le: "nextPosition \<le> a" by simp
    have "replace_matches r [] s (if b = a then b + 1 else b) b
        = cut_spans (all_matches r s (if b = a then b + 1 else b)) b s"
      using 1(1) [OF ex refl le] by simp
    then show ?thesis
      using ex le
      by (simp add: replace_matches.simps [of r _ s lastIndex] all_matches.simps [of r s lastIndex])
  qed
qed

lemma all_matches_ascending:
  "nextPosition \<le> lastIndex \<Longrightarrow> ascending nextPosition (all_matches r s lastIndex) (length s)"
proof (induction r s lastIndex arbitrary: nextPosition rule: all_matches.induct)
  case (1 r s lastIndex)
  show ?case
  proof (cases "regex_exec r s lastIndex")
    case None
    then show ?thesis
      by (simp add: all_matches.simps [of r s lastIndex])
  next
    case (Some m)
    obtain a b where m: "m = (a, b)" by (cases m)
    from Some m have ex: "regex_exec r s lastIndex = Some (a, b)" by simp
    from regex_exec_bounds [OF ex] have b: "lastIndex \<le> a" "a \<le> b" "b \<le> length s" by auto
    have "ascending b (all_matches r s (if b = a then b + 1 else b)) (length s)"
      using "1.IH" [OF ex refl, of b] by simp
    with b "1.prems" ex show ?thesis
      by (simp add: all_matches.simps [of r s lastIndex])
  qed
qed

lemma cut_spans_length:
  "ascending position spans (length s) \<Longrightarrow> position \<le> length s \<Longrightarrow>
   length (cut_spans spans position s) + (\<Sum>(a, b)\<leftarrow>spans. b - a) = length s - position"
proof (induction spans arbitrary: position)
  case Nil
  then show ?case by simp
next
  case (Cons m spans)
  obtain a b where m: "m = (a, b)" by (cases m)
  with Cons.prems have asc: "position \<le> a" "a \<le> b" "b \<le> length s" "ascending b spans (length s)"
    by auto
  from Cons.IH [OF asc(4) asc(3)]
  have "length (cut_spans spans b s) + (\<Sum>(a, b)\<leftarrow>spans. b - a) = length s - b" .
  with asc m show ?case by simp
qed

lemma cut_spans_empty:
  "ascending position spans (length s) \<Longrightarrow> list_all is_empty_span spans \<Longrightarrow>
   cut_spans spans position s = drop position s"
proof (induction spans arbitrary: position)
  case Nil
  then show ?case by simp
next
  case (Cons m spans)
  obtain a b where m: "m = (a, b)" by (cases m)
  with Cons.prems have asc: "position \<le> a" "a = b" "ascending b spans (length s)"
    "list_all is_empty_span spans"
    by auto
  have "take (a - position) (drop position s) @ drop a s = drop position s"
    using asc(1) by (metis append_take_drop_id drop_drop le_add_diff_inverse2)
  with Cons.IH [OF asc(3) asc(4)] asc m show ?case by simp
qed

lemma sum_spans_zero:
  "ascending position spans n \<Longrightarrow> (\<Sum>(a, b)\<leftarrow>spans. b - a) = 0 \<Longrightarrow> list_all is_empty_span spans"
  by (induction spans arbitrary: position) auto

lemma cut_spans_unchanged_iff:
  assumes "ascending position spans (length s)" and "position \<le> length s"
  shows "(cut_spans spans position s = drop position s) = list_all is_empty_span spans"
proof
  assume "cut_spans spans position s = drop position s"
  then have "length (cut_spans spans position s) = length s - position"
    by simp
  with cut_spans_length [OF assms] have "(\<Sum>(a, b)\<leftarrow>spans. b - a) = 0"
    by simp
  with assms(1) show "list_all is_empty_span spans"
    by (rule sum_spans_zero)
next
  assume "list_all is_empty_span spans"
  with assms(1) show "cut_spans spans position s = drop position s"
    by (rule cut_spans_empty)
qed

text \<open>
  Claim C2, as amended. For a key the pattern matches, with first match from \<open>a\<close> to
  \<open>b\<close> and \<open>later\<close> the matches found by searching on after it (as the \<^verbatim>\<open>g\<close> flag asks),
  the published output key is the key without the first match and without any of the
  later ones, each span being all the text that match consumed. The output key is the
  key without the first match only exactly when every later match is empty, as when
  there is none.
\<close>

theorem filter_removes_every_match:
  assumes "regex_exec r fullKey 0 = Some (a, b)"
    and "later = all_matches r fullKey (if b = a then b + 1 else b)"
  shows "publish (Some r) envPrefix ((fullKey, rawValue) # rest) 0
       = publish_entry envPrefix (cut_spans ((a, b) # later) 0 fullKey) rawValue
         @ publish (Some r) envPrefix rest 0
     \<and> all_matches r fullKey 0 = (a, b) # later
     \<and> cut_spans ((a, b) # later) 0 fullKey = take a fullKey @ cut_spans later b fullKey
     \<and> ((cut_spans ((a, b) # later) 0 fullKey = take a fullKey @ drop b fullKey)
          = list_all is_empty_span later)"
proof -
  have m: "all_matches r fullKey 0 = (a, b) # later"
    using assms by (simp add: all_matches.simps [of r fullKey 0])
  have "filter_key (Some r) fullKey 0 = (Some (cut_spans (all_matches r fullKey 0) 0 fullKey), 0)"
    using assms replace_matches_cut [of 0 0 r fullKey]
    by (simp add: filter_key_def regex_test_def regex_replace_all_def)
  then have p: "publish (Some r) envPrefix ((fullKey, rawValue) # rest) 0
       = publish_entry envPrefix (cut_spans ((a, b) # later) 0 fullKey) rawValue
         @ publish (Some r) envPrefix rest 0"
    using m by simp
  from regex_exec_bounds [OF assms(1)] have bd: "a \<le> b" "b \<le> length fullKey" by auto
  have "ascending 0 (all_matches r fullKey 0) (length fullKey)"
    by (rule all_matches_ascending) simp
  with m have asc: "ascending b later (length fullKey)" by simp
  have "(cut_spans later b fullKey = drop b fullKey) = list_all is_empty_span later"
    using asc bd(2) by (rule cut_spans_unchanged_iff)
  then have "(cut_spans ((a, b) # later) 0 fullKey = take a fullKey @ drop b fullKey)
          = list_all is_empty_span later"
    by simp
  with p m show ?thesis by simp
qed

theorem filter_removes_every_match_witness:
  "regex_exec (literal_regex ''a.'') ''a.b.a.c'' 0 = Some (0, 2)
   \<and> [(4, 6)] = all_matches (literal_regex ''a.'') ''a.b.a.c'' (if (2::nat) = 0 then 2 + 1 else 2)
   \<and> publish (Some (literal_regex ''a.'')) [] [(''a.b.a.c'', Str ''web'')] 0
       = [Info ''b.c : web'', SetOutput ''b.c'' (Leaf (Str ''web''))]
   \<and> take 0 ''a.b.a.c'' @ drop 2 ''a.b.a.c'' = ''b.a.c''
   \<and> \<not> list_all is_empty_span [(4, 6)]"
proof -
  have e: "regex_exec (literal_regex ''a.'') ''a.b.a.c'' 0 = Some (0, 2)"
    by (simp add: regex_exec_def literal_regex_def)
  have n: "[(4, 6)] = all_matches (literal_regex ''a.'') ''a.b.a.c'' (if (2::nat) = 0 then 2 + 1 else 2)"
    by (simp add: all_matches.simps regex_exec_def literal_regex_def)
  have "publish (Some (literal_regex ''a.'')) [] ((''a.b.a.c'', Str ''web'') # []) 0
       = publish_entry [] (cut_spans ((0, 2) # [(4, 6)]) 0 ''a.b.a.c'') (Str ''web'')
         @ publish (Some (literal_regex ''a.'')) [] [] 0"
    using filter_removes_every_match [OF e n, of "[]" "Str ''web''" "[]"] by (rule conjunct1)
  also have "\<dots> = [Info ''b.c : web'', SetOutput ''b.c'' (Leaf (Str ''web''))]"
    by (simp add: publish_entry_def)
  finally have p: "publish (Some (literal_regex ''a.'')) [] [(''a.b.a.c'', Str ''web'')] 0
       = [Info ''b.c : web'', SetOutput ''b.c'' (Leaf (Str ''web''))]" .
  have q: "take 0 ''a.b.a.c'' @ drop 2 ''a.b.a.c'' = ''b.a.c''" "\<not> list_all is_empty_span [(4, 6)]"
    by simp_all
  from e n p q show ?thesis
    by (intro conjI)
qed

text \<open>
  The claim as stated fails: the pattern \<^verbatim>\<open>config\.\<close> matches the key
  \<^verbatim>\<open>config.db.config.port\<close> first at 0 to 7, the published key is \<^verbatim>\<open>db.port\<close>, and the
  key without the first match only is \<^verbatim>\<open>db.config.port\<close>.
\<close>

theorem first_match_only_counterexample:
  "regex_exec (literal_regex ''config.'') ''config.db.config.port'' 0 = Some (0, 7)
   \<and> filter_key (Some (literal_regex ''config.'')) ''config.db.config.port'' 0 = (Some ''db.port'', 0)
   \<and> take 0 ''config.db.config.port'' @ drop 7 ''config.db.config.port'' = ''db.config.port''"
  by (simp add: filter_key_def regex_test_def regex_replace_all_def replace_matches.simps
      regex_exec_def literal_regex_def)

subsection \<open>Runs on concrete inputs\<close>

lemmas eval_resolve = resolve_loop.simps token_at_def js_get_def js_replace_def token_def
  undefined_message_def inherited_replacement_def object_prototype_members_def empty_store_def

lemmas eval_entries = own_entries_def is_index_entry_def array_index_def is_digit_def

lemmas eval_run = run_def on_read_def validateSubscription_def traverse_def full_key_def js_set_def
  publish_entry_def filter_key_def

text \<open>
  The examples of the documentation and of the specification: a value built from three
  earlier ones, and a chain of references.
\<close>

lemma resource_group_example:
  "traverse (Obj [(''namespace'', Leaf (Str ''demo'')), (''region'', Leaf (Str ''us-east'')),
                  (''environment'', Leaf (Str ''dev'')),
                  (''resource_group'', Leaf (Str ''$(namespace)-$(region)-$(environment)''))])
     [] \<lparr>resolvedValues = empty_store, emitted = []\<rparr>
   = (Normal,
      \<lparr>resolvedValues =
         \<lparr>props = [(''namespace'', Str ''demo''), (''region'', Str ''us-east''),
                   (''environment'', Str ''dev''), (''resource_group'', Str ''demo-us-east-dev'')],
          proto = True\<rparr>,
       emitted = []\<rparr>)"
  by (simp add: traverse_def full_key_def js_set_def eval_resolve)

lemma chain_example:
  "traverse (Obj [(''a'', Leaf (Str ''x'')), (''b'', Leaf (Str ''$(a)y'')),
                  (''c'', Leaf (Str ''$(b)z'')), (''d'', Leaf (Str ''$(a)-$(b)''))])
     [] \<lparr>resolvedValues = empty_store, emitted = []\<rparr>
   = (Normal,
      \<lparr>resolvedValues =
         \<lparr>props = [(''a'', Str ''x''), (''b'', Str ''xy''), (''c'', Str ''xyz''),
                   (''d'', Str ''x-xy'')],
          proto = True\<rparr>,
       emitted = []\<rparr>)"
  by (simp add: traverse_def full_key_def js_set_def eval_resolve)

text \<open>
  Claim C1. The documentation names the input of the filter pattern \<^verbatim>\<open>key-path\<close>; the
  code reads \<^verbatim>\<open>key-path-pattern\<close>. With the pattern \<^verbatim>\<open>^service\.\<close> given as \<^verbatim>\<open>key-path\<close>
  every key is published under its full name, and with \<^verbatim>\<open>key-path\<close> absent and the
  pattern given as \<^verbatim>\<open>key-path-pattern\<close> the keys are filtered and renamed.
\<close>

theorem filter_input_name:
  "run (services_env ''key-path'')
     = \<lparr>effects = [Info ''YAML file content loaded successfully.'',
                   Info ''service.name : web'',
                   SetOutput ''service.name'' (Leaf (Str ''web'')),
                   Info ''deploy.region : europe'',
                   SetOutput ''deploy.region'' (Leaf (Str ''europe''))],
        ending = Finished\<rparr>
   \<and> run (services_env ''key-path-pattern'')
     = \<lparr>effects = [Info (''Filter pattern detected: '' @ service_pattern),
                   Info ''YAML file content loaded successfully.'',
                   Info ''name : web'',
                   SetOutput ''name'' (Leaf (Str ''web''))],
        ending = Finished\<rparr>"
  by (simp add: services_env_def service_pattern_def services_document_def eval_run eval_resolve
      eval_entries regex_test_def regex_exec_def prefix_regex_def regex_replace_all_def
      replace_matches.simps)

text \<open>
  Claim C3. After the file was read, an undefined variable and a malformed document both
  end the invocation with an exception that nothing catches: \<^verbatim>\<open>core.setFailed\<close> is not
  among the effects.
\<close>

theorem callback_errors_are_uncaught:
  \<open>run (document_env (Inr (Obj [(''b'', Leaf (Str ''$(missing)''))])))
     = \<lparr>effects = [Info ''YAML file content loaded successfully.''],
        ending = Uncaught (Error ''Variable "missing" is not defined'')\<rparr>
   \<and> run (document_env (Inl (Error ''bad indentation of a mapping entry'')))
     = \<lparr>effects = [Info ''YAML file content loaded successfully.''],
        ending = Uncaught (Error ''bad indentation of a mapping entry'')\<rparr>\<close>
  by (simp add: document_env_def eval_run eval_resolve)

text \<open>
  With \<^verbatim>\<open>a\<close> holding the two characters \<^verbatim>\<open>$&\<close>, replacing the token \<^verbatim>\<open>$(a)\<close> puts the token
  back, so the loop on \<^verbatim>\<open>$(a)\<close> has no result.
\<close>

lemma dollar_ampersand_step:
  assumes "resolve_loop l c = Some y"
  shows "\<not> (l = \<lparr>props = [(''a'', Str ''$&'')], proto = True\<rparr> \<and> c = ''$(a)'')"
proof (rule resolve_loop.raw_induct
    [where P = "\<lambda>l c y. \<not> (l = \<lparr>props = [(''a'', Str ''$&'')], proto = True\<rparr> \<and> c = ''$(a)'')", OF _ assms])
  fix f l c y
  assume IH: "\<And>l c y. f l c = Some y \<Longrightarrow> \<not> (l = \<lparr>props = [(''a'', Str ''$&'')], proto = True\<rparr> \<and> c = ''$(a)'')"
    and step: "(case match_token c of
        None \<Rightarrow> Some (Ok c)
      | Some ref \<Rightarrow>
          if \<not> truthy_property (js_get l ref)
          then Some (Throw (Error (undefined_message ref)))
          else (case js_replace c (token ref) (js_get l ref) of
                  Ok current' \<Rightarrow> f l current'
                | Throw e \<Rightarrow> Some (Throw e)
                | Diverge \<Rightarrow> Some Diverge)) = Some y"
  show "\<not> (l = \<lparr>props = [(''a'', Str ''$&'')], proto = True\<rparr> \<and> c = ''$(a)'')"
  proof
    assume h: "l = \<lparr>props = [(''a'', Str ''$&'')], proto = True\<rparr> \<and> c = ''$(a)''"
    with step have "f \<lparr>props = [(''a'', Str ''$&'')], proto = True\<rparr> ''$(a)'' = Some y"
      by (simp add: eval_resolve)
    with IH show False by blast
  qed
qed

text \<open>
  Claim C4. A referenced value is not always what replaces the token: in the value
  \<^verbatim>\<open>pa$$word\<close> the two dollar signs become one, and a reference to the value \<^verbatim>\<open>$&\<close>
  never finishes resolving.
\<close>

theorem dollar_patterns_in_values:
  "traverse_entries [(''password'', Leaf (Str ''pa$$word'')),
                     (''url'', Leaf (Str ''user:$(password)@host''))] [] fresh
     = (Normal, \<lparr>resolvedValues = \<lparr>props = [(''password'', Str ''pa$$word''),
                                               (''url'', Str ''user:pa$word@host'')],
                                     proto = True\<rparr>,
                  emitted = []\<rparr>)
   \<and> resolve_loop \<lparr>props = [(''a'', Str ''$&'')], proto = True\<rparr> ''$(a)'' = None
   \<and> traverse_entries [(''a'', Leaf (Str ''$&'')), (''b'', Leaf (Str ''$(a)''))] [] fresh
     = (Hangs, \<lparr>resolvedValues = \<lparr>props = [(''a'', Str ''$&'')], proto = True\<rparr>, emitted = []\<rparr>)"
proof -
  have n: "resolve_loop \<lparr>props = [(''a'', Str ''$&'')], proto = True\<rparr> ''$(a)'' = None"
    using dollar_ampersand_step
    by (cases "resolve_loop \<lparr>props = [(''a'', Str ''$&'')], proto = True\<rparr> ''$(a)''") auto
  have a: "resolve_loop empty_store ''$&'' = Some (Ok ''$&'')"
    by (simp add: eval_resolve)
  have p: "traverse_entries [(''password'', Leaf (Str ''pa$$word'')),
                     (''url'', Leaf (Str ''user:$(password)@host''))] [] fresh
     = (Normal, \<lparr>resolvedValues = \<lparr>props = [(''password'', Str ''pa$$word''),
                                               (''url'', Str ''user:pa$word@host'')],
                                     proto = True\<rparr>,
                  emitted = []\<rparr>)"
    by (simp add: fresh_def full_key_def js_set_def eval_resolve)
  have h: "traverse_entries [(''a'', Leaf (Str ''$&'')), (''b'', Leaf (Str ''$(a)''))] [] fresh
     = (Hangs, \<lparr>resolvedValues = \<lparr>props = [(''a'', Str ''$&'')], proto = True\<rparr>, emitted = []\<rparr>)"
    using n a by (simp add: fresh_def full_key_def js_set_def empty_store_def)
  show ?thesis
    using n p h by simp
qed

text \<open>
  Claim C5. The name \<^verbatim>\<open>toString\<close> is absent from the mapping, and a reference to it
  throws no error: it resolves to \<^verbatim>\<open>[object Undefined]\<close>.
\<close>

theorem inherited_name_is_not_undefined:
  "map_of (props empty_store) ''toString'' = None
   \<and> traverse_entries [(''b'', Leaf (Str ''$(toString)''))] [] fresh
     = (Normal, \<lparr>resolvedValues = \<lparr>props = [(''b'', Str ''[object Undefined]'')], proto = True\<rparr>,
                  emitted = []\<rparr>)"
  by (simp add: fresh_def full_key_def js_set_def eval_resolve)

text \<open>
  Claim C6. In \<^verbatim>\<open>{b: "$(toString)2", toString: "1"}\<close> the value of \<^verbatim>\<open>b\<close> refers to a key
  that is flattened after it, and nothing is stored yet when \<^verbatim>\<open>b\<close> is resolved. The
  reference does not fail: traversal ends normally with \<^verbatim>\<open>b\<close> stored as
  \<^verbatim>\<open>[object Undefined]2\<close>.
\<close>

theorem forward_reference_to_inherited_name:
  "flatten [(''b'', Leaf (Str ''$(toString)2'')), (''toString'', Leaf (Str ''1''))] []
     = [(''b'', Str ''$(toString)2''), (''toString'', Str ''1'')]
   \<and> map_of (props (resolvedValues fresh)) ''toString'' = None
   \<and> traverse_entries [(''b'', Leaf (Str ''$(toString)2'')), (''toString'', Leaf (Str ''1''))] [] fresh
     = (Normal,
        \<lparr>resolvedValues = \<lparr>props = [(''b'', Str ''[object Undefined]2''), (''toString'', Str ''1'')],
                            proto = True\<rparr>,
         emitted = []\<rparr>)"
  by (simp add: fresh_def full_key_def js_set_def eval_resolve)

subsection \<open>Lists\<close>

lemma traverse_entries_append:
  "traverse_entries (xs @ ys) path st =
     (case traverse_entries xs path st of
        (Normal, st') \<Rightarrow> traverse_entries ys path st'
      | (Thrown e, st') \<Rightarrow> (Thrown e, st')
      | (Hangs, st') \<Rightarrow> (Hangs, st'))"
proof (induction xs arbitrary: st)
  case Nil
  then show ?case by simp
next
  case (Cons x xs)
  obtain key val where x: "x = (key, val)" by (cases x)
  show ?case
  proof (cases val)
    case (Leaf v)
    with Cons x show ?thesis
      by (cases "resolve_scalar v (resolvedValues st)") simp_all
  next
    case (Arr zs)
    with Cons x show ?thesis
      by (auto split: prod.splits completion.splits)
  next
    case (Obj es)
    with Cons x show ?thesis
      by (auto split: prod.splits completion.splits)
  qed
qed

lemma emitted_extends:
  "traverse_entries es path st = (c, st') \<Longrightarrow>
   \<exists>new. emitted st' = emitted st @ new \<and> list_all is_array_output new"
proof (induction es path st arbitrary: c st' rule: traverse_entries.induct)
  case (1 path st)
  then show ?case by simp
next
  case (2 key xs rest path st)
  obtain c1 st1 where inner: "traverse_entries (array_entries xs) (full_key path key)
             (publish_array (full_key path key) xs st) = (c1, st1)"
    by (cases "traverse_entries (array_entries xs) (full_key path key)
             (publish_array (full_key path key) xs st)")
  from 2(1) [OF inner] obtain new1 where n1:
    "emitted st1 = emitted st @ SetOutput (full_key path key @ ''.array'') (Arr xs) # new1"
    "list_all is_array_output new1"
    by (auto simp: publish_array_def)
  show ?case
  proof (cases c1)
    case Normal
    with 2(3) inner have "traverse_entries rest path st1 = (c, st')" by simp
    from 2(2) [OF inner [symmetric] Normal this] n1 show ?thesis by auto
  next
    case (Thrown e)
    with 2(3) inner n1 show ?thesis by auto
  next
    case Hangs
    with 2(3) inner n1 show ?thesis by auto
  qed
next
  case (3 key es rest path st)
  obtain c1 st1 where inner: "traverse_entries es (full_key path key) st = (c1, st1)"
    by (cases "traverse_entries es (full_key path key) st")
  from 3(1) [OF inner] obtain new1 where n1:
    "emitted st1 = emitted st @ new1" "list_all is_array_output new1"
    by auto
  show ?case
  proof (cases c1)
    case Normal
    with 3(3) inner have "traverse_entries rest path st1 = (c, st')" by simp
    from 3(2) [OF inner [symmetric] Normal this] n1 show ?thesis by auto
  next
    case (Thrown e)
    with 3(3) inner n1 show ?thesis by auto
  next
    case Hangs
    with 3(3) inner n1 show ?thesis by auto
  qed
next
  case (4 key v rest path st)
  show ?case
  proof (cases "resolve_scalar v (resolvedValues st)")
    case (Ok r)
    with 4(2) have "traverse_entries rest path
            (st\<lparr>resolvedValues := js_set (resolvedValues st) (full_key path key) r\<rparr>) = (c, st')"
      by simp
    from 4(1) [OF Ok this] show ?thesis by simp
  next
    case (Throw e)
    with 4(2) show ?thesis by auto
  next
    case Diverge
    with 4(2) show ?thesis by auto
  qed
qed

lemma publish_entry_no_array:
  "list_all (\<lambda>x. \<not> is_array_output x) (publish_entry envPrefix outputKey rawValue)"
  by (simp add: publish_entry_def)

lemma publish_no_array:
  "list_all (\<lambda>x. \<not> is_array_output x) (publish patternRegex envPrefix entries lastIndex)"
  by (induction entries arbitrary: lastIndex)
     (auto simp: publish_entry_no_array split: prod.splits option.splits)

lemma member_without_dot:
  "k \<in> set object_prototype_members \<Longrightarrow> CHR ''.'' \<notin> set k"
  by (auto simp: object_prototype_members_def)

lemma current_after_result:
  "current_after n lookup s = Some current \<Longrightarrow> resolve_loop lookup s = resolve_loop lookup current"
proof (induction n arbitrary: current)
  case 0
  then show ?case by simp
next
  case (Suc n)
  from Suc.prems obtain c ref where c: "current_after n lookup s = Some c"
    and m: "match_token c = Some ref" and t: "truthy_property (js_get lookup ref)"
    and r: "js_replace c (token ref) (js_get lookup ref) = Ok current"
    by (auto split: option.splits if_splits res.splits)
  have "resolve_loop lookup c = resolve_loop lookup current"
    using m t r by (subst resolve_loop.simps) simp
  with Suc.IH [OF c] show ?case by simp
qed

lemma traverse_keeps_absent:
  assumes "map_of (props (resolvedValues st)) k = None" and "k \<notin> fst ` set (flatten es path)"
  shows "map_of (props (resolvedValues (snd (traverse_entries es path st)))) k = None"
proof -
  obtain c l where r: "resolve_all (flatten es path) (resolvedValues st) = (c, l)"
    by (cases "resolve_all (flatten es path) (resolvedValues st)")
  with traverse_resolvedValues [of es path st]
  have "resolvedValues (snd (traverse_entries es path st)) = l"
    by (cases "traverse_entries es path st") simp
  moreover from resolve_all_keys [OF r] assms have "k \<notin> fst ` set (props l)"
    by (auto simp: map_of_eq_None_iff)
  ultimately show ?thesis
    by (simp add: map_of_eq_None_iff)
qed

lemma reference_to_absent_array:
  assumes f: "flatten es path = earlier @ (k, Str s) # later"
    and r: "resolve_all earlier (resolvedValues st) = (Normal, seen)"
    and a: "map_of (props (resolvedValues st)) (P @ ''.array'') = None"
    and e: "P @ ''.array'' \<notin> fst ` set earlier"
    and c: "current_after n seen s = Some current"
    and m: "match_token current = Some (P @ ''.array'')"
  shows "fst (traverse_entries es path st) = Thrown (Error (undefined_message (P @ ''.array'')))"
proof -
  from resolve_all_keys [OF r] a e have "P @ ''.array'' \<notin> fst ` set (props seen)"
    by (auto simp: map_of_eq_None_iff)
  then have "map_of (props seen) (P @ ''.array'') = None"
    by (simp add: map_of_eq_None_iff)
  moreover have "P @ ''.array'' \<notin> set object_prototype_members"
    using member_without_dot [of "P @ ''.array''"] by auto
  ultimately have "\<not> truthy_property (js_get seen (P @ ''.array''))"
    by (simp add: js_get_def)
  from resolve_loop_undefined [OF m this] current_after_result [OF c]
  have "resolve_scalar (Str s) seen = Throw (Error (undefined_message (P @ ''.array'')))"
    by simp
  with f r have "map_prod id resolvedValues (traverse_entries es path st)
      = (Thrown (Error (undefined_message (P @ ''.array''))), seen)"
    by (simp add: traverse_resolvedValues resolve_all_append del: resolve_scalar.simps)
  then show ?thesis
    by (cases "traverse_entries es path st") simp
qed

text \<open>
  Claim C9, as amended. When traversal reaches a list that is the value of an entry, at
  flat key \<open>P\<close>, the output \<open>P.array\<close> with the raw list is the next effect, before the
  elements are flattened and whatever happens afterwards; traversal has no other effect
  than such outputs, and takes neither the filter nor the prefix; the publishing loop
  never emits a list, so the output is not filtered, renamed or exported. Traversal
  stores nothing under \<open>P.array\<close> unless a leaf has that flat key itself. So when a later
  value comes to look up \<^verbatim>\<open>$(P.array)\<close>, as its first token or after the tokens before it
  were replaced, and no leaf resolved before that value has the flat key \<open>P.array\<close>,
  traversal throws the undefined-variable error that names \<open>P.array\<close>.
\<close>

theorem array_output_is_published_at_once:
  assumes "traverse_entries before path st = (Normal, reached)"
    and "P = full_key path key"
    and "es = before @ (key, Arr xs) # after"
  shows "(\<exists>new. emitted (snd (traverse_entries es path st))
              = emitted reached @ SetOutput (P @ ''.array'') (Arr xs) # new
            \<and> list_all is_array_output new)
     \<and> (\<exists>new. emitted reached = emitted st @ new \<and> list_all is_array_output new)
     \<and> list_all (\<lambda>x. \<not> is_array_output x) (publish patternRegex envPrefix entries lastIndex)
     \<and> (map_of (props (resolvedValues st)) (P @ ''.array'') = None
          \<and> P @ ''.array'' \<notin> fst ` set (flatten es path) \<longrightarrow>
        map_of (props (resolvedValues (snd (traverse_entries es path st)))) (P @ ''.array'') = None)
     \<and> (\<forall>earlier k s later seen n current.
           flatten es path = earlier @ (k, Str s) # later
             \<and> resolve_all earlier (resolvedValues st) = (Normal, seen)
             \<and> map_of (props (resolvedValues st)) (P @ ''.array'') = None
             \<and> P @ ''.array'' \<notin> fst ` set earlier
             \<and> current_after n seen s = Some current
             \<and> match_token current = Some (P @ ''.array'') \<longrightarrow>
           fst (traverse_entries es path st) = Thrown (Error (undefined_message (P @ ''.array''))))"
proof (intro conjI allI impI)
  obtain c st' where r: "traverse_entries ((key, Arr xs) # after) path reached = (c, st')"
    by (cases "traverse_entries ((key, Arr xs) # after) path reached")
  obtain c1 st1 where inner: "traverse_entries (array_entries xs) P (publish_array P xs reached) = (c1, st1)"
    by (cases "traverse_entries (array_entries xs) P (publish_array P xs reached)")
  from emitted_extends [OF inner] obtain new1 where n1:
    "emitted st1 = emitted reached @ SetOutput (P @ ''.array'') (Arr xs) # new1"
    "list_all is_array_output new1"
    by (auto simp: publish_array_def)
  have "\<exists>new. emitted st' = emitted reached @ SetOutput (P @ ''.array'') (Arr xs) # new
            \<and> list_all is_array_output new"
  proof (cases c1)
    case Normal
    with r inner assms(2) have "traverse_entries after path st1 = (c, st')" by simp
    from emitted_extends [OF this] n1 show ?thesis by auto
  next
    case (Thrown e)
    with r inner assms(2) n1 show ?thesis by auto
  next
    case Hangs
    with r inner assms(2) n1 show ?thesis by auto
  qed
  moreover have "traverse_entries es path st = (c, st')"
    using assms(1,3) r by (simp add: traverse_entries_append)
  ultimately show "\<exists>new. emitted (snd (traverse_entries es path st))
              = emitted reached @ SetOutput (P @ ''.array'') (Arr xs) # new
            \<and> list_all is_array_output new"
    by simp
  show "\<exists>new. emitted reached = emitted st @ new \<and> list_all is_array_output new"
    using emitted_extends [OF assms(1)] .
  show "list_all (\<lambda>x. \<not> is_array_output x) (publish patternRegex envPrefix entries lastIndex)"
    by (rule publish_no_array)
  show "map_of (props (resolvedValues (snd (traverse_entries es path st)))) (P @ ''.array'') = None"
    if "map_of (props (resolvedValues st)) (P @ ''.array'') = None
          \<and> P @ ''.array'' \<notin> fst ` set (flatten es path)"
    using that by (intro traverse_keeps_absent) auto
  show "fst (traverse_entries es path st) = Thrown (Error (undefined_message (P @ ''.array'')))"
    if "flatten es path = earlier @ (k, Str s) # later
             \<and> resolve_all earlier (resolvedValues st) = (Normal, seen)
             \<and> map_of (props (resolvedValues st)) (P @ ''.array'') = None
             \<and> P @ ''.array'' \<notin> fst ` set earlier
             \<and> current_after n seen s = Some current
             \<and> match_token current = Some (P @ ''.array'')"
    for earlier k s later seen n current
    using that reference_to_absent_array [of es path earlier k s later st seen P n current]
    by blast
qed


lemmas eval_traverse = fresh_def full_key_def js_set_def publish_array_def array_entries_def
  show_nat.simps digit_char_def

theorem array_output_is_published_at_once_witness:
  \<open>traverse_entries [] [] fresh = (Normal, fresh)
   \<and> ''p'' = full_key [] ''p''
   \<and> list_document = [] @ (''p'', Arr [Leaf (Str ''x'')])
        # [(''v'', Leaf (Str ''1'')), (''q'', Leaf (Str ''$(v)-$(p.array)''))]
   \<and> flatten list_document []
       = [(''p.0'', Str ''x''), (''v'', Str ''1'')] @ (''q'', Str ''$(v)-$(p.array)'') # []
   \<and> resolve_all [(''p.0'', Str ''x''), (''v'', Str ''1'')] (resolvedValues fresh)
       = (Normal, list_seen)
   \<and> map_of (props (resolvedValues fresh)) (''p'' @ ''.array'') = None
   \<and> ''p'' @ ''.array'' \<notin> fst ` set [(''p.0'', Str ''x''), (''v'', Str ''1'')]
   \<and> current_after 1 list_seen ''$(v)-$(p.array)'' = Some ''1-$(p.array)''
   \<and> match_token ''1-$(p.array)'' = Some (''p'' @ ''.array'')
   \<and> fst (traverse_entries list_document [] fresh)
       = Thrown (Error ''Variable "p.array" is not defined'')
   \<and> hd (emitted (snd (traverse_entries list_document [] fresh)))
       = SetOutput ''p.array'' (Arr [Leaf (Str ''x'')])\<close>
proof -
  have a: "traverse_entries [] [] fresh = (Normal, fresh)"
    by simp
  have b: "''p'' = full_key [] ''p''"
    by (simp add: full_key_def)
  have d: "list_document = [] @ (''p'', Arr [Leaf (Str ''x'')])
        # [(''v'', Leaf (Str ''1'')), (''q'', Leaf (Str ''$(v)-$(p.array)''))]"
    by (simp add: list_document_def)
  have f: "flatten list_document []
       = [(''p.0'', Str ''x''), (''v'', Str ''1'')] @ (''q'', Str ''$(v)-$(p.array)'') # []"
    by (simp add: list_document_def eval_traverse)
  have r: "resolve_all [(''p.0'', Str ''x''), (''v'', Str ''1'')] (resolvedValues fresh)
       = (Normal, list_seen)"
    by (simp add: list_seen_def fresh_def eval_resolve js_set_def)
  have m: "map_of (props (resolvedValues fresh)) (''p'' @ ''.array'') = None"
    by (simp add: fresh_def empty_store_def)
  have e: "''p'' @ ''.array'' \<notin> fst ` set [(''p.0'', Str ''x''), (''v'', Str ''1'')]"
    by simp
  have c: "current_after 1 list_seen ''$(v)-$(p.array)'' = Some ''1-$(p.array)''"
    by (simp add: list_seen_def token_at_def js_get_def js_replace_def token_def)
  have t: "match_token ''1-$(p.array)'' = Some (''p'' @ ''.array'')"
    by (simp add: token_at_def)
  note th = array_output_is_published_at_once [OF a b d, of None "[]" "[]" 0]
  from th f r m e c t
  have x: "fst (traverse_entries list_document [] fresh)
       = Thrown (Error (undefined_message (''p'' @ ''.array'')))"
    by blast
  from th obtain new where "emitted (snd (traverse_entries list_document [] fresh))
       = emitted fresh @ SetOutput (''p'' @ ''.array'') (Arr [Leaf (Str ''x'')]) # new"
    by blast
  then have h: "hd (emitted (snd (traverse_entries list_document [] fresh)))
       = SetOutput ''p.array'' (Arr [Leaf (Str ''x'')])"
    by (simp add: fresh_def)
  from x have x': \<open>fst (traverse_entries list_document [] fresh)
       = Thrown (Error ''Variable "p.array" is not defined'')\<close>
    by (simp add: undefined_message_def)
  from a b d f r m e c t x' h show ?thesis
    by (intro conjI)
qed

text \<open>
  The claim as stated fails twice. In \<^verbatim>\<open>{p: [x], "p.array": y, q: "$(p.array)"}\<close> the
  reference resolves to \<^verbatim>\<open>y\<close>; and a document that is a list at its root gets no
  \<^verbatim>\<open>.array\<close> output.
\<close>

theorem array_reference_counterexample:
  "traverse_entries colliding_document [] fresh
     = (Normal,
        \<lparr>resolvedValues = \<lparr>props = [(''p.0'', Str ''x''), (''p.array'', Str ''y''), (''q'', Str ''y'')],
                            proto = True\<rparr>,
         emitted = [SetOutput ''p.array'' (Arr [Leaf (Str ''x'')])]\<rparr>)
   \<and> traverse (Arr [Leaf (Str ''x'')]) [] fresh
     = (Normal, \<lparr>resolvedValues = \<lparr>props = [(''0'', Str ''x'')], proto = True\<rparr>, emitted = []\<rparr>)"
  by (simp add: colliding_document_def traverse_def eval_traverse eval_resolve)

end
